theory Spec2Isabelle
  imports Complex_Main "HOL-Library.Multiset"
begin

section \<open>The flow editor of \<^verbatim>\<open>src/App.tsx\<close>\<close>

text \<open>
  The component \<^verbatim>\<open>App\<close> keeps the graph in React state (\<^verbatim>\<open>nodes\<close>, \<^verbatim>\<open>edges\<close>,
  \<^verbatim>\<open>selectedNodeId\<close>, \<^verbatim>\<open>reactFlowInstance\<close>) and changes it in event handlers. Each handler
  is a function from the state before the event to the state after it. The memoised handlers
  write through functional updates (\<^verbatim>\<open>setNodes((nds) => ...)\<close>), which read the current
  list, and the others are re-created at every render, so the state a handler reads is the
  state of the model.
\<close>

subsection \<open>Data\<close>

text \<open>
  Coordinates are JavaScript numbers. They are modelled as reals; the only arithmetic on them
  in the component is the subtraction of the wrapper's offset in \<^verbatim>\<open>onDrop\<close>.
\<close>

record xy_position =
  pos_x :: real
  pos_y :: real

record node_data =
  label :: string

text \<open>
  \<^verbatim>\<open>Node\<close> and \<^verbatim>\<open>Edge\<close> are types of the library. The fields are those of the node literal
  in \<^verbatim>\<open>onDrop\<close> (\<^verbatim>\<open>id\<close>, \<^verbatim>\<open>type\<close>, \<^verbatim>\<open>position\<close>, \<^verbatim>\<open>data\<close>) and of an edge (\<^verbatim>\<open>id\<close>,
  \<^verbatim>\<open>source\<close>, \<^verbatim>\<open>target\<close>), and the flag a select change writes, which is absent (false) in a
  node made by \<^verbatim>\<open>onDrop\<close>.
\<close>

record node =
  node_id :: string
  node_type :: string
  position :: xy_position
  data :: node_data
  selected :: bool

record edge =
  edge_id :: string
  source :: string
  target :: string
  edge_selected :: bool

record connection =
  conn_source :: string
  conn_target :: string

text \<open>What \<^verbatim>\<open>toast(title, {description})\<close> hands to the notification surface.\<close>

record toast =
  title :: string
  description :: string

text \<open>
  The library's \<^verbatim>\<open>ReactFlowInstance\<close>, of which \<^verbatim>\<open>onDrop\<close> uses the method
  \<^verbatim>\<open>screenToFlowPosition\<close> only: the mapping of a pointer position to the coordinates of the
  canvas. It is a parameter of \<^verbatim>\<open>onDrop\<close>.
\<close>

record flow_instance =
  screenToFlowPosition :: "xy_position \<Rightarrow> xy_position"

record dom_rect =
  rect_left :: real
  rect_top :: real

text \<open>
  A drop event: \<^verbatim>\<open>event.dataTransfer.getData('application/reactflow')\<close> (the empty string
  when the payload has no such entry), \<^verbatim>\<open>event.clientX\<close> and \<^verbatim>\<open>event.clientY\<close>.
\<close>

record drag_event =
  dataTransfer :: string
  clientX :: real
  clientY :: real

text \<open>
  The state of the editor. \<open>id_counter\<close> is the variable \<^verbatim>\<open>id\<close> of line 35. It is declared
  in the component's body, and \<^verbatim>\<open>onDrop\<close>, its only user, is memoised on
  \<^verbatim>\<open>reactFlowInstance\<close>: all the drops made with one instance run the same closure and share
  the binding of \<^verbatim>\<open>id\<close> that this closure captured, which starts at 0. It is a JavaScript
  number, which counts exactly up to \<open>2\<^sup>5\<^sup>3\<close>, more than the drops of any session; it is
  a natural number here. \<open>toasts\<close> is the sequence of notifications raised so far.
\<close>

record app =
  nodes :: "node list"
  edges :: "edge list"
  selectedNodeId :: "string option"
  reactFlowInstance :: "flow_instance option"
  id_counter :: nat
  toasts :: "toast list"

definition initial :: app where
  "initial = \<lparr>nodes = [], edges = [], selectedNodeId = None, reactFlowInstance = None,
     id_counter = 0, toasts = []\<rparr>"

subsection \<open>Saving: \<^verbatim>\<open>handleSave\<close>\<close>

definition save_failed :: toast where
  "save_failed = \<lparr>title = ''Failed to save the flow'',
     description = ''More than one node has an empty target handle!''\<rparr>"

definition save_succeeded :: toast where
  "save_succeeded = \<lparr>title = ''Flow saved successfully'', description = ''Continue working!!''\<rparr>"

definition handleSave :: "app \<Rightarrow> app" where
  "handleSave st =
     (let nodesWithNoIncoming =
            filter (\<lambda>node. \<not> list_ex (\<lambda>edge. target edge = node_id node) (edges st)) (nodes st)
      in if 1 < length (nodes st) \<and> 1 < length nodesWithNoIncoming
         then st\<lparr>toasts := toasts st @ [save_failed]\<rparr>
         else st\<lparr>toasts := toasts st @ [save_succeeded]\<rparr>)"

text \<open>The notification a save raises: the outcome of the validation.\<close>

definition save_outcome :: "app \<Rightarrow> toast" where
  "save_outcome st = last (toasts (handleSave st))"

text \<open>
  The words of the specification: a root candidate is a node that is not the target of any
  edge.
\<close>

definition root_candidate :: "edge list \<Rightarrow> node \<Rightarrow> bool" where
  "root_candidate es n = (\<forall>e \<in> set es. target e \<noteq> node_id n)"

definition root_candidates :: "app \<Rightarrow> node list" where
  "root_candidates st = filter (root_candidate (edges st)) (nodes st)"

subsection \<open>Identifiers: \<^verbatim>\<open>getId\<close>\<close>

text \<open>
  The decimal numeral JavaScript writes for a non-negative integer in a template literal.
\<close>

definition digit_char :: "nat \<Rightarrow> char" where
  "digit_char d = ''0123456789'' ! (d mod 10)"

fun string_of_nat :: "nat \<Rightarrow> string" where
  "string_of_nat n =
     (if n < 10 then [digit_char n] else string_of_nat (n div 10) @ [digit_char (n mod 10)])"

text \<open>
  \<^verbatim>\<open>const getId = () => `node_${id++}`\<close>: the identifier is made from the counter before
  the increment; the result is the identifier and the counter after it.
\<close>

definition getId :: "nat \<Rightarrow> string \<times> nat" where
  "getId c = (''node_'' @ string_of_nat c, c + 1)"

text \<open>\<open>n\<close> calls in a row, from the counter \<open>c\<close>: the identifiers in the order of the calls.\<close>

fun getIds :: "nat \<Rightarrow> nat \<Rightarrow> string list \<times> nat" where
  "getIds 0 c = ([], c)"
| "getIds (Suc n) c =
     (case getId c of (i, c') \<Rightarrow> (case getIds n c' of (is, c'') \<Rightarrow> (i # is, c'')))"

text \<open>
  Reading an identifier back: the number after the prefix \<^verbatim>\<open>node_\<close>. This is the order in
  which identifiers increase (as strings, \<^verbatim>\<open>node_10\<close> sorts before \<^verbatim>\<open>node_9\<close>).
\<close>

definition digit_val :: "char \<Rightarrow> nat" where
  "digit_val ch = of_char ch - 48"

definition nat_of_string :: "string \<Rightarrow> nat" where
  "nat_of_string s = foldl (\<lambda>a ch. 10 * a + digit_val ch) 0 s"

definition node_number :: "string \<Rightarrow> nat" where
  "node_number s = nat_of_string (drop 5 s)"

subsection \<open>Selection and label edits\<close>

definition onNodeClick :: "node \<Rightarrow> app \<Rightarrow> app" where
  "onNodeClick node st = st\<lparr>selectedNodeId := Some (node_id node)\<rparr>"

text \<open>The button \<^verbatim>\<open>Save name\<close>: \<^verbatim>\<open>setSelectedNodeId(null)\<close>.\<close>

definition clearSelection :: "app \<Rightarrow> app" where
  "clearSelection st = st\<lparr>selectedNodeId := None\<rparr>"

text \<open>
  \<^verbatim>\<open>node.id === selectedNodeId\<close> compares a string with a string or \<^verbatim>\<open>null\<close>; the spread
  \<^verbatim>\<open>{...node, data: {...node.data, label: newLabel}}\<close> is a record update.
\<close>

definition handleLabelChange :: "string \<Rightarrow> app \<Rightarrow> app" where
  "handleLabelChange newLabel st =
     st\<lparr>nodes :=
          map (\<lambda>node. if Some (node_id node) = selectedNodeId st
                       then node\<lparr>data := (data node)\<lparr>label := newLabel\<rparr>\<rparr>
                       else node)
              (nodes st)\<rparr>"

text \<open>
  \<^verbatim>\<open>const selectedNode = nodes.find((node) => node.id === selectedNodeId)\<close>, computed at
  every render; \<^verbatim>\<open>undefined\<close> is \<open>None\<close>.
\<close>

definition selectedNode :: "app \<Rightarrow> node option" where
  "selectedNode st = find (\<lambda>node. Some (node_id node) = selectedNodeId st) (nodes st)"

subsection \<open>Change-sets and connections\<close>

text \<open>
  Modelled from the spec: \<^verbatim>\<open>applyNodeChanges\<close> is a function of the library
  \<^verbatim>\<open>@xyflow/react\<close>, whose code is not in the repository. The specification gives a node
  change as one of add, remove, move and select, applied as an ordered batch, where a change
  that names an absent id does nothing and the nodes it does not name are untouched.
\<close>

datatype node_change =
  Add node
| Remove string
| Move string xy_position
| Select string bool

fun applyNodeChange :: "node_change \<Rightarrow> node list \<Rightarrow> node list" where
  "applyNodeChange (Add n) nds = nds @ [n]"
| "applyNodeChange (Remove i) nds = filter (\<lambda>n. node_id n \<noteq> i) nds"
| "applyNodeChange (Move i p) nds =
     map (\<lambda>n. if node_id n = i then n\<lparr>position := p\<rparr> else n) nds"
| "applyNodeChange (Select i b) nds =
     map (\<lambda>n. if node_id n = i then n\<lparr>selected := b\<rparr> else n) nds"

definition applyNodeChanges :: "node_change list \<Rightarrow> node list \<Rightarrow> node list" where
  "applyNodeChanges changes nds = foldl (\<lambda>acc c. applyNodeChange c acc) nds changes"

text \<open>
  Modelled from the spec: \<^verbatim>\<open>applyEdgeChanges\<close> is a function of the same library, with the
  contract of \<^verbatim>\<open>applyNodeChanges\<close> for edges. The component calls
  \<^verbatim>\<open>applyEdgeChanges(changes, eds)\<close> with the change-set and the edge list, so the function
  is given no node list to look an endpoint up in, and an added edge is taken as it comes.
\<close>

datatype edge_change =
  AddEdge edge
| RemoveEdge string
| SelectEdge string bool

fun applyEdgeChange :: "edge_change \<Rightarrow> edge list \<Rightarrow> edge list" where
  "applyEdgeChange (AddEdge e) eds = eds @ [e]"
| "applyEdgeChange (RemoveEdge i) eds = filter (\<lambda>e. edge_id e \<noteq> i) eds"
| "applyEdgeChange (SelectEdge i b) eds =
     map (\<lambda>e. if edge_id e = i then e\<lparr>edge_selected := b\<rparr> else e) eds"

definition applyEdgeChanges :: "edge_change list \<Rightarrow> edge list \<Rightarrow> edge list" where
  "applyEdgeChanges changes eds = foldl (\<lambda>acc c. applyEdgeChange c acc) eds changes"

definition onNodesChange :: "node_change list \<Rightarrow> app \<Rightarrow> app" where
  "onNodesChange changes st = st\<lparr>nodes := applyNodeChanges changes (nodes st)\<rparr>"

definition onEdgesChange :: "edge_change list \<Rightarrow> app \<Rightarrow> app" where
  "onEdgesChange changes st = st\<lparr>edges := applyEdgeChanges changes (edges st)\<rparr>"

text \<open>
  \<^verbatim>\<open>onConnect\<close> hands the connection and the edge list to the library's \<^verbatim>\<open>addEdge\<close>, which
  is a parameter here: neither the repository nor the specification says how it names the
  edge it makes.
\<close>

definition onConnect ::
  "(connection \<Rightarrow> edge list \<Rightarrow> edge list) \<Rightarrow> connection \<Rightarrow> app \<Rightarrow> app" where
  "onConnect addEdge params st = st\<lparr>edges := addEdge params (edges st)\<rparr>"

text \<open>Every edge's source and target name a node of the node list.\<close>

definition no_dangling_edges :: "app \<Rightarrow> bool" where
  "no_dangling_edges st =
     list_all (\<lambda>e. source e \<in> set (map node_id (nodes st)) \<and>
                    target e \<in> set (map node_id (nodes st))) (edges st)"

subsection \<open>Dropping a node: \<^verbatim>\<open>onDrop\<close>\<close>

text \<open>
  \<open>reactFlowBounds\<close> is \<^verbatim>\<open>reactFlowWrapper.current?.getBoundingClientRect()\<close>: \<open>None\<close> while
  the wrapper is not mounted. An empty type leaves at once. \<^verbatim>\<open>position\<close> is
  \<^verbatim>\<open>undefined\<close> when the bounds or the instance are missing, and then nothing is done: \<^verbatim>\<open>getId\<close>
  is not called either. In the node literal \<^verbatim>\<open>id: getId()\<close> is evaluated before
  \<^verbatim>\<open>data: { label: `${id} Node` }\<close>, so the label shows the counter after the increment.
\<close>

definition onDrop :: "drag_event \<Rightarrow> dom_rect option \<Rightarrow> app \<Rightarrow> app" where
  "onDrop event reactFlowBounds st =
     (let type = dataTransfer event in
      if type = [] then st
      else
        (case reactFlowBounds of
           None \<Rightarrow> st
         | Some bounds \<Rightarrow>
             (case reactFlowInstance st of
                None \<Rightarrow> st
              | Some inst \<Rightarrow>
                  (let position = screenToFlowPosition inst
                         \<lparr>pos_x = clientX event - rect_left bounds,
                          pos_y = clientY event - rect_top bounds\<rparr>
                   in case getId (id_counter st) of
                        (new_id, c) \<Rightarrow>
                          st\<lparr>id_counter := c,
                             nodes := nodes st @
                               [\<lparr>node_id = new_id, node_type = type, position = position,
                                 data = \<lparr>label = string_of_nat c @ '' Node''\<rparr>,
                                 selected = False\<rparr>]\<rparr>))))"

subsection \<open>The scenarios of the specification\<close>

text \<open>
  A message node with a given id, an edge with a given id and endpoints, and the editor
  holding a given graph with nothing selected.
\<close>

definition message_node :: "string \<Rightarrow> node" where
  "message_node i =
     \<lparr>node_id = i, node_type = ''default'', position = \<lparr>pos_x = 0, pos_y = 0\<rparr>,
      data = \<lparr>label = i\<rparr>, selected = False\<rparr>"

definition link :: "string \<Rightarrow> string \<Rightarrow> string \<Rightarrow> edge" where
  "link k a b = \<lparr>edge_id = k, source = a, target = b, edge_selected = False\<rparr>"

definition graph :: "node list \<Rightarrow> edge list \<Rightarrow> app" where
  "graph ns es = initial\<lparr>nodes := ns, edges := es\<rparr>"

text \<open>Scenario D: the drop of a \<^verbatim>\<open>default\<close> node at (120, 80) on a canvas whose origin is (20, 10).\<close>

definition scenario_drop :: drag_event where
  "scenario_drop = \<lparr>dataTransfer = ''default'', clientX = 120, clientY = 80\<rparr>"

definition scenario_bounds :: dom_rect where
  "scenario_bounds = \<lparr>rect_left = 20, rect_top = 10\<rparr>"

text \<open>
  Modelled from the spec: \<^verbatim>\<open>screenToFlowPosition\<close> is a method of the library
  \<^verbatim>\<open>@xyflow/react\<close>, whose code is not in the repository. It is the coordinate mapper of the
  specification, which takes the pointer position in viewport coordinates and itself
  accounts for the bounding offset of the canvas element and for the pan and zoom. At the
  identity pan and zoom what remains is the subtraction of the origin of the canvas.
\<close>

definition identity_instance :: "dom_rect \<Rightarrow> flow_instance" where
  "identity_instance canvas =
     \<lparr>screenToFlowPosition =
        (\<lambda>p. \<lparr>pos_x = pos_x p - rect_left canvas, pos_y = pos_y p - rect_top canvas\<rparr>)\<rparr>"

text \<open>The editor of scenario D, once the instance is set.\<close>

definition mounted :: app where
  "mounted = initial\<lparr>reactFlowInstance := Some (identity_instance scenario_bounds)\<rparr>"

text \<open>
  A stand-in for \<^verbatim>\<open>addEdge\<close> in the examples: it appends the edge of the connection under
  a given id.
\<close>

definition append_edge :: "string \<Rightarrow> connection \<Rightarrow> edge list \<Rightarrow> edge list" where
  "append_edge k params eds = eds @ [link k (conn_source params) (conn_target params)]"

section \<open>Properties\<close>

subsection \<open>The validation at save time\<close>

lemma save_toasts_differ: "save_failed \<noteq> save_succeeded"
  by (simp add: save_failed_def save_succeeded_def)

lemma root_candidate_code:
  "(\<not> list_ex (\<lambda>edge. target edge = node_id n) es) = root_candidate es n"
  by (auto simp: root_candidate_def list_ex_iff)

lemma save_outcome_eq:
  "save_outcome st =
     (if 1 < length (nodes st) \<and> 1 < length (root_candidates st)
      then save_failed else save_succeeded)"
  by (simp add: save_outcome_def handleSave_def root_candidates_def root_candidate_code Let_def)

text \<open>
  Claim C1. The save fails, with the notification of the several entry points, exactly when
  the graph has more than one node and more than one root candidate. In every other case it
  succeeds: with at most one node, with at most one root candidate, and in particular when
  every node is the target of an edge, so that there is no root candidate at all.
\<close>

theorem handleSave_fails_iff:
  "(save_outcome st = save_failed \<longleftrightarrow>
      1 < length (nodes st) \<and> 1 < length (root_candidates st)) \<and>
   (save_outcome st = save_succeeded \<longleftrightarrow>
      \<not> (1 < length (nodes st) \<and> 1 < length (root_candidates st))) \<and>
   (length (nodes st) \<le> 1 \<longrightarrow> save_outcome st = save_succeeded) \<and>
   (length (root_candidates st) \<le> 1 \<longrightarrow> save_outcome st = save_succeeded) \<and>
   ((\<forall>n \<in> set (nodes st). \<exists>e \<in> set (edges st). target e = node_id n) \<longrightarrow>
      root_candidates st = [] \<and> save_outcome st = save_succeeded)"
proof -
  have zero: "root_candidates st = []"
    if "\<forall>n \<in> set (nodes st). \<exists>e \<in> set (edges st). target e = node_id n"
    using that by (auto simp: root_candidates_def root_candidate_def filter_empty_conv)
  show ?thesis
    using save_toasts_differ zero by (auto simp: save_outcome_eq)
qed

text \<open>
  Scenarios A, B and C of the specification, the empty graph, and a cycle of two nodes.
\<close>

theorem handleSave_fails_iff_witness:
  "save_outcome (graph [message_node ''N1'', message_node ''N2'', message_node ''N3'']
       [link ''e1'' ''N1'' ''N2'']) = save_failed \<and>
   save_outcome (graph [message_node ''N1'', message_node ''N2''] [link ''e1'' ''N1'' ''N2''])
     = save_succeeded \<and>
   save_outcome (graph [message_node ''N1''] []) = save_succeeded \<and>
   save_outcome (graph [] []) = save_succeeded \<and>
   save_outcome (graph [message_node ''N1'', message_node ''N2'']
       [link ''e1'' ''N1'' ''N2'', link ''e2'' ''N2'' ''N1'']) = save_succeeded"
  using handleSave_fails_iff
      [of "graph [message_node ''N1'', message_node ''N2'', message_node ''N3'']
         [link ''e1'' ''N1'' ''N2'']"]
    handleSave_fails_iff
      [of "graph [message_node ''N1'', message_node ''N2''] [link ''e1'' ''N1'' ''N2'']"]
    handleSave_fails_iff [of "graph [message_node ''N1''] []"]
    handleSave_fails_iff [of "graph [] []"]
    handleSave_fails_iff
      [of "graph [message_node ''N1'', message_node ''N2'']
         [link ''e1'' ''N1'' ''N2'', link ''e2'' ''N2'' ''N1'']"]
  by (simp add: root_candidates_def root_candidate_def graph_def initial_def message_node_def
      link_def)

text \<open>
  Claim C9. A save inspects the graph and changes nothing of it: the nodes, the edges and the
  selection (and the counter and the instance) are those of before, whether the validation
  passes or fails; the outcome goes to the notification surface only.
\<close>

theorem handleSave_frame:
  "nodes (handleSave st) = nodes st \<and> edges (handleSave st) = edges st \<and>
   selectedNodeId (handleSave st) = selectedNodeId st \<and>
   id_counter (handleSave st) = id_counter st \<and>
   reactFlowInstance (handleSave st) = reactFlowInstance st \<and>
   toasts (handleSave st) = toasts st @ [save_outcome st]"
  by (simp add: save_outcome_def handleSave_def Let_def)

lemma count_by_id_multiset:
  "length (filter (root_candidate es) ns)
     = size (filter_mset (\<lambda>i. i \<notin> set (map target es)) (mset (map node_id ns)))"
proof -
  have "filter (root_candidate es) ns = filter (\<lambda>n. node_id n \<notin> set (map target es)) ns"
    by (rule filter_cong) (force simp: root_candidate_def)+
  then have "length (filter (root_candidate es) ns)
      = length (filter (\<lambda>i. i \<notin> set (map target es)) (map node_id ns))"
    by (simp add: filter_map o_def)
  also have "\<dots> = size (mset (filter (\<lambda>i. i \<notin> set (map target es)) (map node_id ns)))"
    by (simp only: size_mset)
  finally show ?thesis
    by (simp only: mset_filter)
qed

lemma save_outcome_cong:
  assumes ids: "mset (map node_id (nodes s)) = mset (map node_id (nodes t))"
    and tgs: "mset (map target (edges s)) = mset (map target (edges t))"
  shows "save_outcome s = save_outcome t"
proof -
  have "size (mset (map node_id (nodes s))) = size (mset (map node_id (nodes t)))"
    using ids by simp
  then have len: "length (nodes s) = length (nodes t)"
    by simp
  have "set_mset (mset (map target (edges s))) = set_mset (mset (map target (edges t)))"
    using tgs by simp
  then have tg: "set (map target (edges s)) = set (map target (edges t))"
    by simp
  have "length (root_candidates s) = length (root_candidates t)"
    unfolding root_candidates_def count_by_id_multiset ids tg ..
  with len show ?thesis by (simp add: save_outcome_eq)
qed

text \<open>
  Claim C10, as stated, has the outcome of a save depend on the set of the node ids and the
  multiset of the edge targets only. It fails where an id is carried by two nodes: the save
  counts the nodes, not their ids. Two nodes \<^verbatim>\<open>N1\<close> without an edge fail to save, one node
  \<^verbatim>\<open>N1\<close> saves, and the two graphs have the same set of node ids and the same edge targets.
\<close>

theorem save_outcome_id_set_counterexample:
  "set (map node_id (nodes (graph [message_node ''N1'', message_node ''N1''] []))) =
     set (map node_id (nodes (graph [message_node ''N1''] []))) \<and>
   mset (map target (edges (graph [message_node ''N1'', message_node ''N1''] []))) =
     mset (map target (edges (graph [message_node ''N1''] []))) \<and>
   save_outcome (graph [message_node ''N1'', message_node ''N1''] []) = save_failed \<and>
   save_outcome (graph [message_node ''N1''] []) = save_succeeded \<and>
   save_outcome (graph [message_node ''N1'', message_node ''N1''] []) \<noteq>
     save_outcome (graph [message_node ''N1''] [])"
proof -
  have ids: "set (map node_id (nodes (graph [message_node ''N1'', message_node ''N1''] []))) =
     set (map node_id (nodes (graph [message_node ''N1''] [])))"
    by (simp add: graph_def initial_def)
  have tgs: "mset (map target (edges (graph [message_node ''N1'', message_node ''N1''] []))) =
     mset (map target (edges (graph [message_node ''N1''] [])))"
    by (simp add: graph_def initial_def)
  have two: "save_outcome (graph [message_node ''N1'', message_node ''N1''] []) = save_failed"
    by (simp add: save_outcome_eq root_candidates_def root_candidate_def graph_def initial_def)
  have one: "save_outcome (graph [message_node ''N1''] []) = save_succeeded"
    by (simp add: save_outcome_eq root_candidates_def root_candidate_def graph_def initial_def)
  from ids tgs two one save_toasts_differ show ?thesis
    by simp
qed

text \<open>
  Claim C10, amended. The outcome of a save depends only on the multiset of the node ids,
  that is on how many nodes carry each id, and on the multiset of the edge targets: two
  graphs that agree on both have the same outcome, whatever the positions, labels and types
  of the nodes and the ids and sources of the edges. For graphs whose node ids are unique
  the set of the node ids is enough.
\<close>

theorem save_outcome_depends_on_ids_and_targets:
  "(mset (map node_id (nodes s)) = mset (map node_id (nodes t)) \<and>
    mset (map target (edges s)) = mset (map target (edges t))
      \<longrightarrow> save_outcome s = save_outcome t) \<and>
   (distinct (map node_id (nodes s)) \<and> distinct (map node_id (nodes t)) \<and>
    set (map node_id (nodes s)) = set (map node_id (nodes t)) \<and>
    mset (map target (edges s)) = mset (map target (edges t))
      \<longrightarrow> save_outcome s = save_outcome t)"
proof (intro conjI impI)
  assume a: "mset (map node_id (nodes s)) = mset (map node_id (nodes t)) \<and>
    mset (map target (edges s)) = mset (map target (edges t))"
  show "save_outcome s = save_outcome t"
    by (rule save_outcome_cong) (use a in blast)+
next
  assume a: "distinct (map node_id (nodes s)) \<and> distinct (map node_id (nodes t)) \<and>
    set (map node_id (nodes s)) = set (map node_id (nodes t)) \<and>
    mset (map target (edges s)) = mset (map target (edges t))"
  then have ids: "mset (map node_id (nodes s)) = mset (map node_id (nodes t))"
    using set_eq_iff_mset_eq_distinct [of "map node_id (nodes s)" "map node_id (nodes t)"]
    by blast
  from a have tgs: "mset (map target (edges s)) = mset (map target (edges t))"
    by blast
  from ids tgs show "save_outcome s = save_outcome t"
    by (rule save_outcome_cong)
qed

text \<open>
  Scenario A against a graph with the nodes in another order, moved, relabelled and retyped,
  and with its edge under another id and from another source.
\<close>

theorem save_outcome_depends_on_ids_and_targets_witness:
  "save_outcome
     (graph [message_node ''N1'', message_node ''N2'', message_node ''N3'']
        [link ''e1'' ''N1'' ''N2'']) =
   save_outcome
     (graph [(message_node ''N3'')\<lparr>position := \<lparr>pos_x = 5, pos_y = 7\<rparr>\<rparr>,
             (message_node ''N1'')\<lparr>data := \<lparr>label = ''Hello''\<rparr>\<rparr>,
             (message_node ''N2'')\<lparr>node_type := ''other''\<rparr>]
        [link ''e9'' ''N3'' ''N2''])"
proof -
  let ?s = "graph [message_node ''N1'', message_node ''N2'', message_node ''N3'']
        [link ''e1'' ''N1'' ''N2'']"
  let ?t = "graph [(message_node ''N3'')\<lparr>position := \<lparr>pos_x = 5, pos_y = 7\<rparr>\<rparr>,
             (message_node ''N1'')\<lparr>data := \<lparr>label = ''Hello''\<rparr>\<rparr>,
             (message_node ''N2'')\<lparr>node_type := ''other''\<rparr>]
        [link ''e9'' ''N3'' ''N2'']"
  have "distinct (map node_id (nodes ?s)) \<and> distinct (map node_id (nodes ?t)) \<and>
    set (map node_id (nodes ?s)) = set (map node_id (nodes ?t)) \<and>
    mset (map target (edges ?s)) = mset (map target (edges ?t))"
    by (auto simp: graph_def initial_def message_node_def link_def)
  with conjunct2 [OF save_outcome_depends_on_ids_and_targets [of ?s ?t]] show ?thesis
    by (rule mp)
qed

subsection \<open>The identifier generator\<close>

declare string_of_nat.simps [simp del]

lemma digit_val_digit_char: "d < 10 \<Longrightarrow> digit_val (digit_char d) = d"
proof -
  assume "d < 10"
  then have "d \<in> {0, 1, 2, 3, 4, 5, 6, 7, 8, 9}" by auto
  then show ?thesis
    by (auto simp: digit_val_def digit_char_def)
qed

lemma nat_of_string_snoc:
  "nat_of_string (s @ [ch]) = 10 * nat_of_string s + digit_val ch"
  by (simp add: nat_of_string_def)

lemma nat_of_string_of_nat: "nat_of_string (string_of_nat n) = n"
proof (induction n rule: string_of_nat.induct)
  case (1 n)
  show ?case
  proof (cases "n < 10")
    case True
    then show ?thesis
      using nat_of_string_snoc [of "[]" "digit_char n"]
      by (simp add: string_of_nat.simps [of n] digit_val_digit_char nat_of_string_def)
  next
    case False
    with 1 have "nat_of_string (string_of_nat (n div 10)) = n div 10" by simp
    with False show ?thesis
      by (simp add: string_of_nat.simps [of n] nat_of_string_snoc digit_val_digit_char)
  qed
qed

lemma node_number_node: "node_number (''node_'' @ string_of_nat k) = k"
  by (simp add: node_number_def nat_of_string_of_nat)

lemma getIds_eq:
  "getIds n c = (map (\<lambda>k. ''node_'' @ string_of_nat k) [c..<c + n], c + n)"
proof (induction n arbitrary: c)
  case 0
  show ?case by simp
next
  case (Suc n)
  have "[c..<c + Suc n] = c # [Suc c..<Suc c + n]"
    by (simp add: upt_conv_Cons)
  with Suc [of "Suc c"] show ?case
    by (simp add: getId_def)
qed

text \<open>
  Claim C3. From the counter's initial value 0, \<open>n\<close> calls of \<^verbatim>\<open>getId\<close> return
  \<^verbatim>\<open>node_0\<close>, ..., \<^verbatim>\<open>node_\<close>\<open>(n - 1)\<close> and leave the counter at \<open>n\<close>: every call advances it.
  The identifiers are pairwise distinct, and their numbers increase strictly.
\<close>

theorem getId_never_repeats:
  "fst (getIds n (id_counter initial)) = map (\<lambda>k. ''node_'' @ string_of_nat k) [0..<n] \<and>
   snd (getIds n (id_counter initial)) = n \<and>
   map node_number (fst (getIds n (id_counter initial))) = [0..<n] \<and>
   distinct (fst (getIds n (id_counter initial))) \<and>
   sorted_wrt (\<lambda>a b. node_number a < node_number b) (fst (getIds n (id_counter initial)))"
proof -
  let ?ids = "fst (getIds n (id_counter initial))"
  have ids: "?ids = map (\<lambda>k. ''node_'' @ string_of_nat k) [0..<n]"
    and cnt: "snd (getIds n (id_counter initial)) = n"
    by (simp_all add: getIds_eq initial_def)
  have nums: "map node_number ?ids = [0..<n]"
    unfolding ids map_map o_def node_number_node by simp
  have "distinct (map node_number ?ids)"
    unfolding nums by simp
  then have dist: "distinct ?ids"
    by (simp add: distinct_map)
  have "sorted_wrt (<) (map node_number ?ids)"
    unfolding nums by (rule sorted_wrt_upt)
  then have "sorted_wrt (\<lambda>a b. node_number a < node_number b) ?ids"
    by (simp add: sorted_wrt_map)
  with ids cnt nums dist show ?thesis by blast
qed

theorem getId_never_repeats_witness:
  "fst (getIds 3 (id_counter initial)) = [''node_0'', ''node_1'', ''node_2''] \<and>
   snd (getIds 3 (id_counter initial)) = 3"
  using getId_never_repeats [of 3]
  by (simp add: upt_rec string_of_nat.simps digit_char_def)

subsection \<open>Change-sets, connections and dangling edges\<close>

lemma ids_after_change:
  "map node_id (applyNodeChange c nds) =
     (case c of
        Add n \<Rightarrow> map node_id nds @ [node_id n]
      | Remove i \<Rightarrow> filter (\<lambda>j. j \<noteq> i) (map node_id nds)
      | Move i p \<Rightarrow> map node_id nds
      | Select i b \<Rightarrow> map node_id nds)"
proof (cases c)
  case (Add n)
  then show ?thesis by simp
next
  case (Remove i)
  then show ?thesis by (simp add: filter_map o_def)
next
  case (Move i p)
  have "map node_id (map (\<lambda>n. if node_id n = i then n\<lparr>position := p\<rparr> else n) nds) = map node_id nds"
    by (induction nds) simp_all
  with Move show ?thesis by simp
next
  case (Select i b)
  have "map node_id (map (\<lambda>n. if node_id n = i then n\<lparr>selected := b\<rparr> else n) nds) = map node_id nds"
    by (induction nds) simp_all
  with Select show ?thesis by simp
qed

lemma id_survives_change:
  assumes "i \<in> node_id ` set nds" and "c \<noteq> Remove i"
  shows "i \<in> node_id ` set (applyNodeChange c nds)"
proof -
  have "i \<in> set (map node_id (applyNodeChange c nds))"
    unfolding ids_after_change using assms by (cases c) auto
  then show ?thesis by simp
qed

lemma id_survives_changes:
  "i \<in> node_id ` set nds \<Longrightarrow> Remove i \<notin> set cs \<Longrightarrow>
   i \<in> node_id ` set (applyNodeChanges cs nds)"
  unfolding applyNodeChanges_def
proof (induction cs arbitrary: nds)
  case Nil
  then show ?case by simp
next
  case (Cons c cs)
  from Cons.prems have "i \<in> node_id ` set (applyNodeChange c nds)"
    by (intro id_survives_change) auto
  with Cons show ?case by simp
qed

lemma endpoints_after_change:
  "\<forall>e \<in> set eds. P (source e) (target e) \<Longrightarrow>
   \<forall>e. c = AddEdge e \<longrightarrow> P (source e) (target e) \<Longrightarrow>
   \<forall>e \<in> set (applyEdgeChange c eds). P (source e) (target e)"
  by (cases c) auto

lemma endpoints_after_changes:
  "\<forall>e \<in> set eds. P (source e) (target e) \<Longrightarrow>
   \<forall>e. AddEdge e \<in> set cs \<longrightarrow> P (source e) (target e) \<Longrightarrow>
   \<forall>e \<in> set (applyEdgeChanges cs eds). P (source e) (target e)"
  unfolding applyEdgeChanges_def
proof (induction cs arbitrary: eds)
  case Nil
  then show ?case by simp
next
  case (Cons c cs)
  from Cons.prems have "\<forall>e \<in> set (applyEdgeChange c eds). P (source e) (target e)"
    by (intro endpoints_after_change) auto
  with Cons show ?case by simp
qed

lemma removed_id_gone: "i \<notin> node_id ` set (applyNodeChanges [Remove i] nds)"
  by (auto simp: applyNodeChanges_def)

lemma no_dangling_edges_iff:
  "no_dangling_edges st \<longleftrightarrow>
     (\<forall>e \<in> set (edges st). source e \<in> node_id ` set (nodes st) \<and>
                             target e \<in> node_id ` set (nodes st))"
  by (simp add: no_dangling_edges_def list_all_iff)

lemma node_changes_keep_invariant:
  assumes "no_dangling_edges st"
    and "\<forall>e \<in> set (edges st). Remove (source e) \<notin> set ncs \<and> Remove (target e) \<notin> set ncs"
  shows "no_dangling_edges (onNodesChange ncs st)"
proof -
  have "source e \<in> node_id ` set (applyNodeChanges ncs (nodes st)) \<and>
        target e \<in> node_id ` set (applyNodeChanges ncs (nodes st))"
    if "e \<in> set (edges st)" for e
  proof -
    from that assms(1) have "source e \<in> node_id ` set (nodes st)" "target e \<in> node_id ` set (nodes st)"
      unfolding no_dangling_edges_iff by blast+
    moreover from that assms(2) have "Remove (source e) \<notin> set ncs" "Remove (target e) \<notin> set ncs"
      by blast+
    ultimately show ?thesis
      by (simp add: id_survives_changes)
  qed
  then show ?thesis
    unfolding no_dangling_edges_iff by (simp add: onNodesChange_def)
qed

lemma edge_changes_keep_invariant:
  assumes "no_dangling_edges st"
    and "\<forall>e. AddEdge e \<in> set ecs \<longrightarrow>
        source e \<in> set (map node_id (nodes st)) \<and> target e \<in> set (map node_id (nodes st))"
  shows "no_dangling_edges (onEdgesChange ecs st)"
proof -
  let ?P = "\<lambda>s t. s \<in> node_id ` set (nodes st) \<and> t \<in> node_id ` set (nodes st)"
  have old: "\<forall>e \<in> set (edges st). ?P (source e) (target e)"
    using assms(1) unfolding no_dangling_edges_iff .
  have new: "\<forall>e. AddEdge e \<in> set ecs \<longrightarrow> ?P (source e) (target e)"
    using assms(2) by simp
  have "\<forall>e \<in> set (applyEdgeChanges ecs (edges st)). ?P (source e) (target e)"
    using old new by (rule endpoints_after_changes)
  then show ?thesis
    unfolding no_dangling_edges_iff by (simp add: onEdgesChange_def)
qed

lemma connect_keeps_invariant:
  assumes "no_dangling_edges st"
    and "conn_source params \<in> set (map node_id (nodes st))"
    and "conn_target params \<in> set (map node_id (nodes st))"
    and "\<forall>e \<in> set (addEdge params (edges st)).
         e \<in> set (edges st) \<or> source e = conn_source params \<and> target e = conn_target params"
  shows "no_dangling_edges (onConnect addEdge params st)"
proof -
  have "source e \<in> node_id ` set (nodes st) \<and> target e \<in> node_id ` set (nodes st)"
    if "e \<in> set (addEdge params (edges st))" for e
  proof (cases "e \<in> set (edges st)")
    case True
    with assms(1) show ?thesis unfolding no_dangling_edges_iff by blast
  next
    case False
    with that assms(4) have "source e = conn_source params" "target e = conn_target params"
      by blast+
    with assms(2,3) show ?thesis by simp
  qed
  then show ?thesis
    unfolding no_dangling_edges_iff by (simp add: onConnect_def)
qed

lemma removal_does_not_cascade:
  assumes "\<exists>e \<in> set (edges st). source e = a \<or> target e = a"
  shows "\<not> no_dangling_edges (onNodesChange [Remove a] st)"
proof
  assume inv: "no_dangling_edges (onNodesChange [Remove a] st)"
  from assms obtain e where e: "e \<in> set (edges st)" "source e = a \<or> target e = a"
    by blast
  from inv e(1) have "source e \<in> node_id ` set (applyNodeChanges [Remove a] (nodes st))"
    "target e \<in> node_id ` set (applyNodeChanges [Remove a] (nodes st))"
    unfolding no_dangling_edges_iff by (simp_all add: onNodesChange_def)
  with e(2) removed_id_gone [of a "nodes st"] show False
    by metis
qed

text \<open>
  Claim C2, as stated, would have every node change-set, every edge change-set and every
  connection keep the edges free of dangling endpoints. It fails on the graph that a
  connection of \<^verbatim>\<open>N1\<close> to \<^verbatim>\<open>N2\<close> leaves: the removal of \<^verbatim>\<open>N1\<close> leaves the edge where it
  was. It fails for an added edge too, which is not checked against the nodes.
\<close>

theorem store_mutations_counterexample:
  "no_dangling_edges
     (graph [message_node ''N1'', message_node ''N2''] [link ''e1'' ''N1'' ''N2'']) \<and>
   \<not> no_dangling_edges
     (onNodesChange [Remove ''N1'']
        (graph [message_node ''N1'', message_node ''N2''] [link ''e1'' ''N1'' ''N2''])) \<and>
   no_dangling_edges (graph [message_node ''N1''] []) \<and>
   \<not> no_dangling_edges
     (onEdgesChange [AddEdge (link ''e2'' ''N0'' ''N1'')] (graph [message_node ''N1''] []))"
proof (intro conjI)
  show "no_dangling_edges
     (graph [message_node ''N1'', message_node ''N2''] [link ''e1'' ''N1'' ''N2''])"
    by (simp add: no_dangling_edges_def graph_def initial_def message_node_def link_def)
  show "\<not> no_dangling_edges
     (onNodesChange [Remove ''N1'']
        (graph [message_node ''N1'', message_node ''N2''] [link ''e1'' ''N1'' ''N2'']))"
    by (simp add: no_dangling_edges_def onNodesChange_def applyNodeChanges_def graph_def
        initial_def message_node_def link_def)
  show "no_dangling_edges (graph [message_node ''N1''] [])"
    by (simp add: no_dangling_edges_def graph_def initial_def)
  show "\<not> no_dangling_edges
     (onEdgesChange [AddEdge (link ''e2'' ''N0'' ''N1'')] (graph [message_node ''N1''] []))"
    by (simp add: no_dangling_edges_def onEdgesChange_def applyEdgeChanges_def graph_def
        initial_def message_node_def link_def)
qed

text \<open>
  Claim C2, amended. A node change-set changes the node list only, an edge change-set and a
  connection the edge list only. The edges stay free of dangling endpoints under a node
  change-set that removes no endpoint of an edge, under an edge change-set whose added edges
  have both endpoints among the nodes, and under a connection of two present nodes for
  which \<^verbatim>\<open>addEdge\<close> returns edges of before and edges of the connection. The removal of an
  endpoint of an edge does not cascade: the edge stays, and dangles. An added edge is
  appended whatever its endpoints.
\<close>

theorem store_mutations_and_dangling_edges:
  "edges (onNodesChange ncs st) = edges st \<and>
   nodes (onEdgesChange ecs st) = nodes st \<and>
   nodes (onConnect addEdge params st) = nodes st \<and>
   (no_dangling_edges st \<and>
    (\<forall>e \<in> set (edges st). Remove (source e) \<notin> set ncs \<and> Remove (target e) \<notin> set ncs)
      \<longrightarrow> no_dangling_edges (onNodesChange ncs st)) \<and>
   (no_dangling_edges st \<and>
    (\<forall>e. AddEdge e \<in> set ecs \<longrightarrow>
       source e \<in> set (map node_id (nodes st)) \<and> target e \<in> set (map node_id (nodes st)))
      \<longrightarrow> no_dangling_edges (onEdgesChange ecs st)) \<and>
   (no_dangling_edges st \<and>
    conn_source params \<in> set (map node_id (nodes st)) \<and>
    conn_target params \<in> set (map node_id (nodes st)) \<and>
    (\<forall>e \<in> set (addEdge params (edges st)).
       e \<in> set (edges st) \<or> source e = conn_source params \<and> target e = conn_target params)
      \<longrightarrow> no_dangling_edges (onConnect addEdge params st)) \<and>
   ((\<exists>e \<in> set (edges st). source e = a \<or> target e = a)
      \<longrightarrow> \<not> no_dangling_edges (onNodesChange [Remove a] st)) \<and>
   edges (onEdgesChange [AddEdge new] st) = edges st @ [new]"
proof (intro conjI impI)
  show "edges (onNodesChange ncs st) = edges st"
    by (simp add: onNodesChange_def)
  show "edges (onEdgesChange [AddEdge new] st) = edges st @ [new]"
    by (simp add: onEdgesChange_def applyEdgeChanges_def)
  show "nodes (onEdgesChange ecs st) = nodes st"
    by (simp add: onEdgesChange_def)
  show "nodes (onConnect addEdge params st) = nodes st"
    by (simp add: onConnect_def)
next
  assume "no_dangling_edges st \<and>
    (\<forall>e \<in> set (edges st). Remove (source e) \<notin> set ncs \<and> Remove (target e) \<notin> set ncs)"
  then show "no_dangling_edges (onNodesChange ncs st)"
    by (simp add: node_changes_keep_invariant)
next
  assume "no_dangling_edges st \<and>
    (\<forall>e. AddEdge e \<in> set ecs \<longrightarrow>
       source e \<in> set (map node_id (nodes st)) \<and> target e \<in> set (map node_id (nodes st)))"
  then show "no_dangling_edges (onEdgesChange ecs st)"
    using edge_changes_keep_invariant [of st ecs] by blast
next
  assume "no_dangling_edges st \<and>
    conn_source params \<in> set (map node_id (nodes st)) \<and>
    conn_target params \<in> set (map node_id (nodes st)) \<and>
    (\<forall>e \<in> set (addEdge params (edges st)).
       e \<in> set (edges st) \<or> source e = conn_source params \<and> target e = conn_target params)"
  then show "no_dangling_edges (onConnect addEdge params st)"
    using connect_keeps_invariant [of st params addEdge] by blast
next
  assume "\<exists>e \<in> set (edges st). source e = a \<or> target e = a"
  then show "\<not> no_dangling_edges (onNodesChange [Remove a] st)"
    by (rule removal_does_not_cascade)
qed

text \<open>
  The three mutations on scenario A, each under the conditions above, and the removal of
  \<^verbatim>\<open>N1\<close>, the source of its edge.
\<close>

theorem store_mutations_and_dangling_edges_witness:
  "no_dangling_edges
     (onNodesChange [Remove ''N3'', Move ''N1'' \<lparr>pos_x = 4, pos_y = 2\<rparr>]
        (graph [message_node ''N1'', message_node ''N2'', message_node ''N3'']
           [link ''e1'' ''N1'' ''N2''])) \<and>
   no_dangling_edges
     (onEdgesChange [AddEdge (link ''e2'' ''N2'' ''N3''), RemoveEdge ''e1'']
        (graph [message_node ''N1'', message_node ''N2'', message_node ''N3'']
           [link ''e1'' ''N1'' ''N2''])) \<and>
   no_dangling_edges
     (onConnect (append_edge ''e3'') \<lparr>conn_source = ''N2'', conn_target = ''N3''\<rparr>
        (graph [message_node ''N1'', message_node ''N2'', message_node ''N3'']
           [link ''e1'' ''N1'' ''N2''])) \<and>
   \<not> no_dangling_edges
     (onNodesChange [Remove ''N1'']
        (graph [message_node ''N1'', message_node ''N2'', message_node ''N3'']
           [link ''e1'' ''N1'' ''N2'']))"
proof -
  let ?g = "graph [message_node ''N1'', message_node ''N2'', message_node ''N3'']
           [link ''e1'' ''N1'' ''N2'']"
  have inv: "no_dangling_edges ?g"
    by (simp add: no_dangling_edges_def graph_def initial_def message_node_def link_def)
  have h1: "\<forall>e \<in> set (edges ?g).
      Remove (source e) \<notin> set [Remove ''N3'', Move ''N1'' \<lparr>pos_x = 4, pos_y = 2\<rparr>] \<and>
      Remove (target e) \<notin> set [Remove ''N3'', Move ''N1'' \<lparr>pos_x = 4, pos_y = 2\<rparr>]"
    by (simp add: graph_def initial_def link_def)
  have h2: "\<forall>e. AddEdge e \<in> set [AddEdge (link ''e2'' ''N2'' ''N3''), RemoveEdge ''e1''] \<longrightarrow>
      source e \<in> set (map node_id (nodes ?g)) \<and> target e \<in> set (map node_id (nodes ?g))"
    by (simp add: graph_def initial_def message_node_def link_def)
  have h3: "conn_source \<lparr>conn_source = ''N2'', conn_target = ''N3''\<rparr> \<in> set (map node_id (nodes ?g))"
    "conn_target \<lparr>conn_source = ''N2'', conn_target = ''N3''\<rparr> \<in> set (map node_id (nodes ?g))"
    by (simp_all add: graph_def initial_def message_node_def)
  have h4: "\<forall>e \<in> set (append_edge ''e3'' \<lparr>conn_source = ''N2'', conn_target = ''N3''\<rparr> (edges ?g)).
      e \<in> set (edges ?g) \<or>
      source e = conn_source \<lparr>conn_source = ''N2'', conn_target = ''N3''\<rparr> \<and>
      target e = conn_target \<lparr>conn_source = ''N2'', conn_target = ''N3''\<rparr>"
    by (simp add: append_edge_def graph_def initial_def link_def)
  have h5: "\<exists>e \<in> set (edges ?g). source e = ''N1'' \<or> target e = ''N1''"
    by (simp add: graph_def initial_def link_def)
  from inv h1 h2 h3 h4 h5 show ?thesis
    using store_mutations_and_dangling_edges
      [of "[Remove ''N3'', Move ''N1'' \<lparr>pos_x = 4, pos_y = 2\<rparr>]" ?g
        "[AddEdge (link ''e2'' ''N2'' ''N3''), RemoveEdge ''e1'']"
        "append_edge ''e3''" "\<lparr>conn_source = ''N2'', conn_target = ''N3''\<rparr>" "''N1''"]
    by blast
qed

subsection \<open>Selection and label edits\<close>

text \<open>
  Claim C6. Select a node, edit its label, then remove the node with a change-set: the
  selected node, looked up by id in the node list at every read, is none. The state still
  holds the id of the removed node.
\<close>

theorem removed_selection_resolves_to_none:
  "selectedNode
     (onNodesChange [Remove (node_id n2)] (handleLabelChange text (onNodeClick n2 st))) = None \<and>
   selectedNodeId
     (onNodesChange [Remove (node_id n2)] (handleLabelChange text (onNodeClick n2 st)))
     = Some (node_id n2)"
  by (simp add: selectedNode_def onNodesChange_def handleLabelChange_def onNodeClick_def
      applyNodeChanges_def find_None_iff)

text \<open>
  Scenario E: before the removal the selection resolves to \<^verbatim>\<open>N2\<close> with its new label, after
  it to nothing.
\<close>

theorem removed_selection_resolves_to_none_witness:
  "selectedNode
     (handleLabelChange ''Hello'' (onNodeClick (message_node ''N2'')
        (graph [message_node ''N1'', message_node ''N2''] [])))
     = Some ((message_node ''N2'')\<lparr>data := \<lparr>label = ''Hello''\<rparr>\<rparr>) \<and>
   selectedNode
     (onNodesChange [Remove ''N2''] (handleLabelChange ''Hello'' (onNodeClick (message_node ''N2'')
        (graph [message_node ''N1'', message_node ''N2''] [])))) = None"
  using removed_selection_resolves_to_none
     [of "message_node ''N2''" "''Hello''" "graph [message_node ''N1'', message_node ''N2''] []"]
  by (simp add: selectedNode_def handleLabelChange_def onNodeClick_def onNodesChange_def
      applyNodeChanges_def graph_def initial_def message_node_def)

text \<open>
  Claim C7. A label edit replaces the label of the nodes whose id is the selected one and of
  no other node; the id, the type and the position of every node stay. When no node has the
  selected id, and so when nothing is selected, the whole state stays as it was. The edges
  and the selection are never touched.
\<close>

theorem handleLabelChange_frame:
  "length (nodes (handleLabelChange newLabel st)) = length (nodes st) \<and>
   (\<forall>k < length (nodes st).
      nodes (handleLabelChange newLabel st) ! k =
        (if Some (node_id (nodes st ! k)) = selectedNodeId st
         then (nodes st ! k)\<lparr>data := (data (nodes st ! k))\<lparr>label := newLabel\<rparr>\<rparr>
         else nodes st ! k) \<and>
      node_id (nodes (handleLabelChange newLabel st) ! k) = node_id (nodes st ! k) \<and>
      node_type (nodes (handleLabelChange newLabel st) ! k) = node_type (nodes st ! k) \<and>
      position (nodes (handleLabelChange newLabel st) ! k) = position (nodes st ! k)) \<and>
   ((\<forall>n \<in> set (nodes st). Some (node_id n) \<noteq> selectedNodeId st) \<longrightarrow>
      handleLabelChange newLabel st = st) \<and>
   edges (handleLabelChange newLabel st) = edges st \<and>
   selectedNodeId (handleLabelChange newLabel st) = selectedNodeId st"
proof (intro conjI allI impI)
  show "length (nodes (handleLabelChange newLabel st)) = length (nodes st)"
    by (simp add: handleLabelChange_def)
  show "edges (handleLabelChange newLabel st) = edges st"
    by (simp add: handleLabelChange_def)
  show "selectedNodeId (handleLabelChange newLabel st) = selectedNodeId st"
    by (simp add: handleLabelChange_def)
next
  fix k assume k: "k < length (nodes st)"
  then show "nodes (handleLabelChange newLabel st) ! k =
        (if Some (node_id (nodes st ! k)) = selectedNodeId st
         then (nodes st ! k)\<lparr>data := (data (nodes st ! k))\<lparr>label := newLabel\<rparr>\<rparr>
         else nodes st ! k)"
    by (simp add: handleLabelChange_def)
  from k show "node_id (nodes (handleLabelChange newLabel st) ! k) = node_id (nodes st ! k)"
    by (simp add: handleLabelChange_def)
  from k show "node_type (nodes (handleLabelChange newLabel st) ! k) = node_type (nodes st ! k)"
    by (simp add: handleLabelChange_def)
  from k show "position (nodes (handleLabelChange newLabel st) ! k) = position (nodes st ! k)"
    by (simp add: handleLabelChange_def)
next
  assume none: "\<forall>n \<in> set (nodes st). Some (node_id n) \<noteq> selectedNodeId st"
  then have "map (\<lambda>node. if Some (node_id node) = selectedNodeId st
                       then node\<lparr>data := (data node)\<lparr>label := newLabel\<rparr>\<rparr>
                       else node) (nodes st) = nodes st"
    by (simp add: map_idI)
  then show "handleLabelChange newLabel st = st"
    by (simp add: handleLabelChange_def)
qed

text \<open>
  An edit with \<^verbatim>\<open>N2\<close> selected, one with nothing selected, and one with the id of no node
  selected.
\<close>

theorem handleLabelChange_frame_witness:
  "nodes (handleLabelChange ''Hello'' (onNodeClick (message_node ''N2'')
      (graph [message_node ''N1'', message_node ''N2''] [link ''e1'' ''N1'' ''N2''])))
     = [message_node ''N1'', (message_node ''N2'')\<lparr>data := \<lparr>label = ''Hello''\<rparr>\<rparr>] \<and>
   nodes (handleLabelChange ''Hello''
      (graph [message_node ''N1'', message_node ''N2''] [link ''e1'' ''N1'' ''N2'']))
     = [message_node ''N1'', message_node ''N2''] \<and>
   nodes (handleLabelChange ''Hello'' (onNodeClick (message_node ''N3'')
      (graph [message_node ''N1'', message_node ''N2''] [link ''e1'' ''N1'' ''N2''])))
     = [message_node ''N1'', message_node ''N2'']"
proof -
  let ?g = "graph [message_node ''N1'', message_node ''N2''] [link ''e1'' ''N1'' ''N2'']"
  let ?s = "onNodeClick (message_node ''N2'') ?g"
  let ?t = "onNodeClick (message_node ''N3'') ?g"
  have len: "length (nodes (handleLabelChange ''Hello'' ?s)) = 2"
    and n0: "nodes (handleLabelChange ''Hello'' ?s) ! 0 = message_node ''N1''"
    and n1: "nodes (handleLabelChange ''Hello'' ?s) ! 1
        = (message_node ''N2'')\<lparr>data := \<lparr>label = ''Hello''\<rparr>\<rparr>"
    using handleLabelChange_frame [of "''Hello''" ?s]
    by (simp_all add: onNodeClick_def graph_def initial_def message_node_def)
  have "nodes (handleLabelChange ''Hello'' ?s)
      = [nodes (handleLabelChange ''Hello'' ?s) ! 0, nodes (handleLabelChange ''Hello'' ?s) ! 1]"
    using len by (auto simp: list_eq_iff_nth_eq less_Suc_eq numeral_2_eq_2)
  with n0 n1 have a: "nodes (handleLabelChange ''Hello'' ?s)
      = [message_node ''N1'', (message_node ''N2'')\<lparr>data := \<lparr>label = ''Hello''\<rparr>\<rparr>]"
    by simp
  have "handleLabelChange ''Hello'' ?g = ?g"
    using handleLabelChange_frame [of "''Hello''" ?g]
    by (simp add: graph_def initial_def)
  then have b: "nodes (handleLabelChange ''Hello'' ?g) = [message_node ''N1'', message_node ''N2'']"
    by (simp add: graph_def)
  have "handleLabelChange ''Hello'' ?t = ?t"
    using handleLabelChange_frame [of "''Hello''" ?t]
    by (simp add: onNodeClick_def graph_def initial_def message_node_def)
  then have c: "nodes (handleLabelChange ''Hello'' ?t) = [message_node ''N1'', message_node ''N2'']"
    by (simp add: onNodeClick_def graph_def)
  from a b c show ?thesis by simp
qed

subsection \<open>Dropping a node\<close>

text \<open>
  Claim C8. A drop while the bounding rectangle of the canvas or the instance is missing
  changes nothing: no node is added, and the counter does not move.
\<close>

theorem onDrop_not_ready:
  "reactFlowBounds = None \<or> reactFlowInstance st = None \<Longrightarrow>
   onDrop event reactFlowBounds st = st"
  by (auto simp: onDrop_def Let_def split: option.splits)

text \<open>A drop before the wrapper is mounted, and a drop before the instance is set.\<close>

theorem onDrop_not_ready_witness:
  "nodes (onDrop scenario_drop None mounted) = [] \<and>
   id_counter (onDrop scenario_drop None mounted) = 0 \<and>
   nodes (onDrop scenario_drop (Some scenario_bounds) initial) = [] \<and>
   id_counter (onDrop scenario_drop (Some scenario_bounds) initial) = 0"
  using onDrop_not_ready [of None mounted scenario_drop]
    onDrop_not_ready [of "Some scenario_bounds" initial scenario_drop]
  by (simp add: initial_def mounted_def)

text \<open>
  Claim C4 has the node of scenario D at (100, 70). The component subtracts the origin of the
  canvas from the pointer position, which gives (100, 70), and hands the result to the
  mapper of the instance, which subtracts the origin once more: the first drop of a session
  appends one node, \<^verbatim>\<open>node_0\<close> with the label \<^verbatim>\<open>1 Node\<close>, at (80, 60).
\<close>

theorem onDrop_scenario_D_position:
  "nodes (onDrop scenario_drop (Some scenario_bounds) mounted) =
     [\<lparr>node_id = ''node_0'', node_type = ''default'', position = \<lparr>pos_x = 80, pos_y = 60\<rparr>,
       data = \<lparr>label = ''1 Node''\<rparr>, selected = False\<rparr>] \<and>
   id_counter (onDrop scenario_drop (Some scenario_bounds) mounted) = 1"
  by (simp add: onDrop_def Let_def getId_def scenario_drop_def scenario_bounds_def mounted_def
      initial_def identity_instance_def string_of_nat.simps digit_char_def)

end
